theory Spec2Isabelle
  imports Complex_Main "HOL-Library.Log_Nat"
begin

section \<open>JavaScript values used by the dashboard\<close>

text \<open>
  The dashboard is a React client. Its numbers are JSON numbers and readings of
  \<^verbatim>\<open>Date.now()\<close>. Where only sums, differences and comparisons are taken they are
  modelled as exact rationals (integers for clock readings); the request rate, a quotient
  that \<^verbatim>\<open>Math.round\<close> turns into an integer, is computed in IEEE doubles below. The only
  non-number a subtraction of samples can produce is \<^verbatim>\<open>NaN\<close>, which gets a constructor
  of its own. A field that may be absent from a JSON object (\<^verbatim>\<open>undefined\<close>) is an
  \<open>option\<close>.
\<close>

datatype jsnum = Num rat | NaN

definition js_sub :: "rat option \<Rightarrow> rat option \<Rightarrow> jsnum" where
  \<comment> \<open>\<^verbatim>\<open>a - b\<close>: \<^verbatim>\<open>undefined\<close> converts to \<^verbatim>\<open>NaN\<close>, and \<^verbatim>\<open>NaN\<close> absorbs.\<close>
  "js_sub a b = (case a of None \<Rightarrow> NaN | Some x \<Rightarrow> (case b of None \<Rightarrow> NaN | Some y \<Rightarrow> Num (x - y)))"

definition js_gt :: "rat option \<Rightarrow> rat \<Rightarrow> bool" where
  \<comment> \<open>\<^verbatim>\<open>a > c\<close>: a comparison with \<^verbatim>\<open>undefined\<close> is false.\<close>
  "js_gt a c = (case a of None \<Rightarrow> False | Some x \<Rightarrow> x > c)"

definition or_zero :: "rat option \<Rightarrow> rat" where
  \<comment> \<open>\<^verbatim>\<open>a || 0\<close>: \<^verbatim>\<open>undefined\<close> and \<^verbatim>\<open>0\<close> are falsy, every other number is kept.\<close>
  "or_zero a = (case a of None \<Rightarrow> 0 | Some x \<Rightarrow> x)"

definition slice_last :: "nat \<Rightarrow> 'a list \<Rightarrow> 'a list" where
  \<comment> \<open>\<^verbatim>\<open>xs.slice(-k)\<close> for \<open>k > 0\<close>: the last \<open>k\<close> elements, all of \<open>xs\<close> when it is shorter.\<close>
  "slice_last k xs = drop (length xs - k) xs"

section \<open>IEEE doubles\<close>

text \<open>
  A double is its exact rational value, an infinity or \<^verbatim>\<open>NaN\<close>. The two zeros are one
  value: the modelled code divides by a positive number only and compares with \<^verbatim>\<open>>\<close>,
  so the sign of a zero is never observed.
\<close>

datatype double = Dbl rat | PosInf | NegInf | DNaN

definition ilog2 :: "rat \<Rightarrow> int" where
  \<comment> \<open>The binary exponent of \<open>q \<noteq> 0\<close>: the \<open>e\<close> with \<open>2 powi e \<le> \<bar>q\<bar> < 2 powi (e + 1)\<close>.\<close>
  "ilog2 q =
     (let p = fst (quotient_of \<bar>q\<bar>);
          d = snd (quotient_of \<bar>q\<bar>);
          k = bitlen p - bitlen d
      in if \<bar>q\<bar> < 2 powi k then k - 1 else k)"

definition round_half_even :: "rat \<Rightarrow> int" where
  "round_half_even m =
     (let f = \<lfloor>m\<rfloor>; r = m - of_int f
      in if r < 1 / 2 then f
         else if 1 / 2 < r then f + 1
         else if even f then f else f + 1)"

definition fl :: "rat \<Rightarrow> double" where
  \<comment> \<open>Rounding to the nearest binary64 value, ties to even: 53 significant bits down to the
      exponent \<open>-1022\<close>, multiples of \<open>2 powi (-1074)\<close> below, an infinity when the
      rounded value reaches \<open>2 powi 1024\<close>.\<close>
  "fl q =
     (if q = 0 then Dbl 0
      else
        (let e = max (ilog2 q) (- 1022);
             ulp = 2 powi (e - 52);
             m = round_half_even (q / ulp)
         in if 1024 \<le> e \<or> (e = 1023 \<and> 2 ^ 53 \<le> \<bar>m\<bar>)
            then (if 0 < q then PosInf else NegInf)
            else Dbl (of_int m * ulp)))"

text \<open>\<^verbatim>\<open>a - b\<close> and \<^verbatim>\<open>a / b\<close>, the comparisons with 0, and \<^verbatim>\<open>Math.round\<close> (the nearest integer,
  a half rounds up; the result is exact).\<close>

fun d_sub :: "double \<Rightarrow> double \<Rightarrow> double" where
  "d_sub (Dbl a) (Dbl b) = fl (a - b)"
| "d_sub (Dbl a) PosInf = NegInf"
| "d_sub (Dbl a) NegInf = PosInf"
| "d_sub (Dbl a) DNaN = DNaN"
| "d_sub PosInf (Dbl b) = PosInf"
| "d_sub PosInf PosInf = DNaN"
| "d_sub PosInf NegInf = PosInf"
| "d_sub PosInf DNaN = DNaN"
| "d_sub NegInf (Dbl b) = NegInf"
| "d_sub NegInf PosInf = NegInf"
| "d_sub NegInf NegInf = DNaN"
| "d_sub NegInf DNaN = DNaN"
| "d_sub DNaN y = DNaN"

fun d_div :: "double \<Rightarrow> double \<Rightarrow> double" where
  "d_div (Dbl a) (Dbl b) =
     (if b = 0 then (if a = 0 then DNaN else if 0 < a then PosInf else NegInf)
      else fl (a / b))"
| "d_div (Dbl a) PosInf = Dbl 0"
| "d_div (Dbl a) NegInf = Dbl 0"
| "d_div (Dbl a) DNaN = DNaN"
| "d_div PosInf (Dbl b) = (if 0 \<le> b then PosInf else NegInf)"
| "d_div PosInf PosInf = DNaN"
| "d_div PosInf NegInf = DNaN"
| "d_div PosInf DNaN = DNaN"
| "d_div NegInf (Dbl b) = (if 0 \<le> b then NegInf else PosInf)"
| "d_div NegInf PosInf = DNaN"
| "d_div NegInf NegInf = DNaN"
| "d_div NegInf DNaN = DNaN"
| "d_div DNaN y = DNaN"

fun d_gt0 :: "double \<Rightarrow> bool" where
  "d_gt0 (Dbl a) = (0 < a)"
| "d_gt0 PosInf = True"
| "d_gt0 NegInf = False"
| "d_gt0 DNaN = False"

fun d_le0 :: "double \<Rightarrow> bool" where
  "d_le0 (Dbl a) = (a \<le> 0)"
| "d_le0 PosInf = False"
| "d_le0 NegInf = True"
| "d_le0 DNaN = False"

fun d_ge0 :: "double \<Rightarrow> bool" where
  "d_ge0 (Dbl a) = (0 \<le> a)"
| "d_ge0 PosInf = True"
| "d_ge0 NegInf = False"
| "d_ge0 DNaN = False"

fun js_round :: "double \<Rightarrow> double" where
  "js_round (Dbl a) = Dbl (of_int \<lfloor>a + 1 / 2\<rfloor>)"
| "js_round PosInf = PosInf"
| "js_round NegInf = NegInf"
| "js_round DNaN = DNaN"

section \<open>ServerMetrics.jsx\<close>

text \<open>
  An entity snapshot as it arrives on the wire. Only the fields read by the modelled
  functions are kept; every one of them may be absent.
\<close>

record server =
  name :: "string option"
  cpu_usage :: "rat option"
  memory_usage :: "rat option"
  connections :: "rat option"
  healthy :: "bool option"

text \<open>One entry of a server's history (\<^verbatim>\<open>newEntry\<close>).\<close>

record sample =
  timestamp :: int
  cpu :: rat
  memory :: rat
  conns :: rat

text \<open>
  \<^verbatim>\<open>metricsHistory\<close> is a plain object. The map holds its own properties, one array of
  samples per server name. A read \<^verbatim>\<open>obj[key]\<close> of a key that is no own property falls
  through to \<^verbatim>\<open>Object.prototype\<close>: eleven keys give a function there (\<^verbatim>\<open>.length\<close> is
  its number of parameters), \<^verbatim>\<open>__proto__\<close> gives the prototype object itself (it has no
  \<^verbatim>\<open>length\<close>), every other key gives \<^verbatim>\<open>undefined\<close>. None of the inherited values has a
  method \<^verbatim>\<open>slice\<close>, so calling it throws a \<^verbatim>\<open>TypeError\<close>.
\<close>

type_synonym metricsHistory = "string \<rightharpoonup> sample list"

datatype inherited = Function nat | Prototype

definition object_prototype :: "string \<Rightarrow> inherited option" where
  "object_prototype key =
     (if key = ''constructor'' then Some (Function 1)
      else if key = ''hasOwnProperty'' then Some (Function 1)
      else if key = ''isPrototypeOf'' then Some (Function 1)
      else if key = ''propertyIsEnumerable'' then Some (Function 1)
      else if key = ''toLocaleString'' then Some (Function 0)
      else if key = ''toString'' then Some (Function 0)
      else if key = ''valueOf'' then Some (Function 0)
      else if key = ''__defineGetter__'' then Some (Function 2)
      else if key = ''__defineSetter__'' then Some (Function 2)
      else if key = ''__lookupGetter__'' then Some (Function 1)
      else if key = ''__lookupSetter__'' then Some (Function 1)
      else if key = ''__proto__'' then Some Prototype
      else None)"

datatype 'a property = Own 'a | Inherited inherited | Missing

definition get_property :: "(string \<rightharpoonup> 'a) \<Rightarrow> string \<Rightarrow> 'a property" where
  \<comment> \<open>\<^verbatim>\<open>obj[key]\<close>\<close>
  "get_property obj key =
     (case obj key of
        Some v \<Rightarrow> Own v
      | None \<Rightarrow> (case object_prototype key of Some m \<Rightarrow> Inherited m | None \<Rightarrow> Missing))"

datatype js_error = TypeError

definition samples_of :: "metricsHistory \<Rightarrow> string \<Rightarrow> sample list" where
  \<comment> \<open>The samples stored for a server name: its own property, none when there is no such
      property.\<close>
  "samples_of obj n = (case obj n of None \<Rightarrow> [] | Some h \<Rightarrow> h)"

definition newEntry :: "int \<Rightarrow> server \<Rightarrow> sample" where
  "newEntry now srv =
     \<lparr>timestamp = now, cpu = or_zero (cpu_usage srv), memory = or_zero (memory_usage srv),
      conns = or_zero (connections srv)\<rparr>"

definition falsy_name :: "string option \<Rightarrow> bool" where
  \<comment> \<open>\<^verbatim>\<open>!server.name\<close>: an absent name and the empty string.\<close>
  "falsy_name n = (case n of None \<Rightarrow> True | Some s \<Rightarrow> s = [])"

definition prop_key :: "string option \<Rightarrow> string" where
  \<comment> \<open>\<^verbatim>\<open>obj[server.name]\<close>: a property key is a string, an absent name reads as
      \<^verbatim>\<open>"undefined"\<close>.\<close>
  "prop_key n = (case n of None \<Rightarrow> ''undefined'' | Some s \<Rightarrow> s)"

definition setMetricsHistory ::
    "int \<Rightarrow> server \<Rightarrow> metricsHistory \<Rightarrow> js_error + metricsHistory" where
  \<comment> \<open>The updater passed to \<^verbatim>\<open>setMetricsHistory\<close>; \<open>now\<close> is its reading of \<^verbatim>\<open>Date.now()\<close>.
      In \<^verbatim>\<open>prev[server.name] || []\<close> only \<^verbatim>\<open>undefined\<close> is falsy: an inherited function or
      object is kept, and \<^verbatim>\<open>history.slice(-19)\<close> throws.\<close>
  "setMetricsHistory now srv prev =
     (case get_property prev (prop_key (name srv)) of
        Inherited m \<Rightarrow> Inl TypeError
      | Missing \<Rightarrow>
          Inr (prev(prop_key (name srv) \<mapsto> slice_last 19 [] @ [newEntry now srv]))
      | Own history \<Rightarrow>
          Inr (prev(prop_key (name srv) \<mapsto> slice_last 19 history @ [newEntry now srv])))"

fun update_metrics :: "(int \<times> server) list \<Rightarrow> metricsHistory \<Rightarrow> js_error + metricsHistory" where
  \<comment> \<open>The effect on \<^verbatim>\<open>[servers]\<close>: \<^verbatim>\<open>servers.forEach\<close>, each server paired with the clock
      reading of its updater. A server with a falsy name is skipped. An updater that throws
      ends the component: no state is left.\<close>
  "update_metrics [] prev = Inr prev"
| "update_metrics ((now, srv) # rest) prev =
     (if falsy_name (name srv) then update_metrics rest prev
      else (case setMetricsHistory now srv prev of
              Inl err \<Rightarrow> Inl err
            | Inr updated \<Rightarrow> update_metrics rest updated))"

fun run_effects_from ::
    "(int \<times> server) list list \<Rightarrow> metricsHistory \<Rightarrow> js_error + metricsHistory" where
  "run_effects_from [] h = Inr h"
| "run_effects_from (batch # batches) h =
     (case update_metrics batch h of
        Inl err \<Rightarrow> Inl err
      | Inr updated \<Rightarrow> run_effects_from batches updated)"

definition run_effects :: "(int \<times> server) list list \<Rightarrow> js_error + metricsHistory" where
  \<comment> \<open>The history after the effect ran once per element, from the initial state \<^verbatim>\<open>{}\<close>.\<close>
  "run_effects runs = run_effects_from runs Map.empty"

definition getServerStatus :: "server \<Rightarrow> string" where
  "getServerStatus srv =
     (if healthy srv = Some False then ''unhealthy''
      else if js_gt (cpu_usage srv) 80 \<or> js_gt (memory_usage srv) 85 then ''warning''
      else ''healthy'')"

definition sample_get :: "sample \<Rightarrow> string \<Rightarrow> rat option" where
  \<comment> \<open>\<^verbatim>\<open>entry[metric]\<close>: the four own properties of an entry. Any other key reads
      \<^verbatim>\<open>undefined\<close> (or a member of \<^verbatim>\<open>Object.prototype\<close>, which converts to \<^verbatim>\<open>NaN\<close>
      in a subtraction exactly as \<^verbatim>\<open>undefined\<close> does).\<close>
  "sample_get e metric =
     (if metric = ''timestamp'' then Some (of_int (timestamp e))
      else if metric = ''cpu'' then Some (cpu e)
      else if metric = ''memory'' then Some (memory e)
      else if metric = ''connections'' then Some (conns e)
      else None)"

definition calculateTrend :: "metricsHistory \<Rightarrow> string \<Rightarrow> string \<Rightarrow> js_error + jsnum" where
  \<comment> \<open>In \<^verbatim>\<open>!history || history.length < 2\<close> an inherited function is truthy and has a
      \<^verbatim>\<open>length\<close>; the prototype object is truthy and \<^verbatim>\<open>undefined < 2\<close> is false.\<close>
  "calculateTrend metricsHistory serverName metric =
     (case get_property metricsHistory serverName of
        Missing \<Rightarrow> Inr (Num 0)
      | Inherited (Function n) \<Rightarrow> if n < 2 then Inr (Num 0) else Inl TypeError
      | Inherited Prototype \<Rightarrow> Inl TypeError
      | Own history \<Rightarrow>
          if length history < 2 then Inr (Num 0)
          else (let recent = slice_last 2 history
                in Inr (js_sub (sample_get (recent ! 1) metric) (sample_get (recent ! 0) metric))))"

section \<open>LoadBalancerStats.jsx\<close>

text \<open>One entry of \<^verbatim>\<open>algorithmHistory\<close>: a cumulative request count with its clock reading.\<close>

record history_entry =
  entry_algorithm :: string
  entry_timestamp :: int
  healthyServers :: rat
  totalRequests :: rat

record performance =
  requestRate :: double
  avgResponseTime :: rat
  errorRate :: rat
  efficiency :: rat

definition calculateAlgorithmPerformance ::
    "rat \<Rightarrow> rat \<Rightarrow> rat \<Rightarrow> history_entry list \<Rightarrow> performance" where
  \<comment> \<open>\<open>r1\<close>, \<open>r2\<close>, \<open>r3\<close> are the three draws of \<^verbatim>\<open>Math.random()\<close> of the mocked fields.
      The counts and the clock readings are doubles as they stand.\<close>
  "calculateAlgorithmPerformance r1 r2 r3 algorithmHistory =
     (if length algorithmHistory < 2
      then \<lparr>requestRate = Dbl 0, avgResponseTime = 0, errorRate = 0, efficiency = 0\<rparr>
      else
        (let current = algorithmHistory ! (length algorithmHistory - 1);
             previous = algorithmHistory ! (length algorithmHistory - 2);
             requestChange = d_sub (Dbl (totalRequests current)) (Dbl (totalRequests previous));
             timeDiff = d_div (d_sub (Dbl (of_int (entry_timestamp current)))
                                     (Dbl (of_int (entry_timestamp previous)))) (Dbl 1000);
             rate = (if d_gt0 timeDiff then d_div requestChange timeDiff else Dbl 0)
         in \<lparr>requestRate = js_round rate,
             avgResponseTime = 50 + r1 * 50,
             errorRate = 1 / 2 + r2 * (3 / 2),
             efficiency = 85 + r3 * 15\<rparr>))"

section \<open>App.jsx\<close>

text \<open>
  The body of \<^verbatim>\<open>GET /stats\<close> and of a \<^verbatim>\<open>stats_update\<close> message; the payload of a
  \<^verbatim>\<open>traffic_update\<close> message is never inspected by \<^verbatim>\<open>App\<close> and stays a type
  parameter.
\<close>

record stats_json =
  total_requests :: "rat option"
  healthy_servers :: "rat option"
  total_servers :: "rat option"
  stats_algorithm :: "string option"
  server_stats :: "server list option"

record 'p app_state =
  stats :: "stats_json option"
  servers :: "server list"
  algorithm :: string
  trafficData :: "'p list"
  isSimulating :: bool

definition initial_app :: "'p app_state" where
  "initial_app =
     \<lparr>stats = None, servers = [], algorithm = ''round_robin'', trafficData = [],
      isSimulating = False\<rparr>"

datatype 'p message = Stats_update stats_json | Traffic_update 'p | Other_message

definition onmessage :: "'p message \<Rightarrow> 'p app_state \<Rightarrow> 'p app_state" where
  \<comment> \<open>\<^verbatim>\<open>ws.onmessage\<close>; a message of any other type changes nothing, nor does one that
      \<^verbatim>\<open>JSON.parse\<close> rejects.\<close>
  "onmessage msg st =
     (case msg of
        Stats_update payload \<Rightarrow> st\<lparr>stats := Some payload\<rparr>
      | Traffic_update payload \<Rightarrow> st\<lparr>trafficData := slice_last 50 (trafficData st) @ [payload]\<rparr>
      | Other_message \<Rightarrow> st)"

text \<open>
  The outcome of \<^verbatim>\<open>await fetch(...)\<close> followed by \<^verbatim>\<open>await response.json()\<close>: either
  of them throws into the \<^verbatim>\<open>catch\<close> block, or the parsed body is there.
\<close>

datatype 'a fetched = Threw | Body 'a

record algorithm_json =
  success :: "bool option"

definition fetchStats :: "stats_json fetched \<Rightarrow> 'p app_state \<Rightarrow> 'p app_state" where
  \<comment> \<open>\<open>resp\<close> is the outcome of \<^verbatim>\<open>GET /stats\<close>.\<close>
  "fetchStats resp st =
     (case resp of
        Threw \<Rightarrow> st
      | Body data \<Rightarrow>
          st\<lparr>stats := Some data,
             servers := (case server_stats data of None \<Rightarrow> [] | Some l \<Rightarrow> l)\<rparr>)"

definition changeAlgorithm ::
    "string \<Rightarrow> algorithm_json fetched \<Rightarrow> stats_json fetched \<Rightarrow> 'p app_state \<Rightarrow> 'p app_state" where
  \<comment> \<open>\<open>resp\<close> is the outcome of \<^verbatim>\<open>GET /algorithm/{newAlgo}\<close>, \<open>stats_resp\<close> that of the
      \<^verbatim>\<open>GET /stats\<close> which the call \<^verbatim>\<open>fetchStats()\<close> issues. The call is not awaited:
      its writes land when that response arrives.\<close>
  "changeAlgorithm newAlgo resp stats_resp st =
     (case resp of
        Threw \<Rightarrow> st
      | Body data \<Rightarrow>
          if success data = Some True then fetchStats stats_resp (st\<lparr>algorithm := newAlgo\<rparr>)
          else st)"

section \<open>NetworkTopology.jsx: layout\<close>






section \<open>NetworkTopology.jsx: traffic animation\<close>

record event =
  ev_id :: int
  ev_from :: string
  ev_to :: "string option"

text \<open>
  The component's \<^verbatim>\<open>traffic\<close> state together with the timers the effect has
  registered: the live \<^verbatim>\<open>setInterval\<close> (its next due time and the \<^verbatim>\<open>servers\<close> its
  closure captured) and the pending \<^verbatim>\<open>setTimeout\<close>s (due time and captured \<^verbatim>\<open>id\<close>).
  \<open>clock\<close> is the reading of \<^verbatim>\<open>Date.now()\<close>, in milliseconds.
\<close>

record topology =
  clock :: int
  traffic :: "event list"
  interval :: "(int \<times> server list) option"
  timeouts :: "(int \<times> int) list"

definition timeout_callback :: "int \<Rightarrow> topology \<Rightarrow> topology" where
  \<comment> \<open>\<^verbatim>\<open>setTraffic(prev => prev.filter(t => t.id !== id))\<close>\<close>
  "timeout_callback i st = st\<lparr>traffic := filter (\<lambda>t. ev_id t \<noteq> i) (traffic st)\<rparr>"

definition interval_callback :: "rat \<Rightarrow> server list \<Rightarrow> topology \<Rightarrow> topology" where
  \<comment> \<open>The function given to \<^verbatim>\<open>setInterval\<close>; \<open>r\<close> is the draw of \<^verbatim>\<open>Math.random()\<close>, in
      \<open>[0, 1)\<close>. For any other \<open>r\<close> the index is out of range, \<^verbatim>\<open>servers[idx].name\<close>
      throws and the callback ends before it changes anything.\<close>
  "interval_callback r srvs st =
     (if length srvs > 0 then
        (let idx = \<lfloor>r * of_nat (length srvs)\<rfloor>
         in if 0 \<le> idx \<and> idx < int (length srvs) then
              (let to = name (srvs ! nat idx);
                   i = clock st
               in st\<lparr>traffic := traffic st @ [\<lparr>ev_id = i, ev_from = ''lb'', ev_to = to\<rparr>],
                     timeouts := timeouts st @ [(clock st + 2000, i)]\<rparr>)
            else st)
      else st)"

definition effect_setup :: "server list \<Rightarrow> topology \<Rightarrow> topology" where
  \<comment> \<open>\<^verbatim>\<open>const interval = setInterval(..., 500)\<close>\<close>
  "effect_setup srvs st = st\<lparr>interval := Some (clock st + 500, srvs)\<rparr>"

definition effect_cleanup :: "topology \<Rightarrow> topology" where
  \<comment> \<open>\<^verbatim>\<open>return () => clearInterval(interval)\<close>\<close>
  "effect_cleanup st = st\<lparr>interval := None\<rparr>"

definition mount :: "int \<Rightarrow> server list \<Rightarrow> topology" where
  \<comment> \<open>The first render at time \<open>t0\<close>: \<^verbatim>\<open>useState([])\<close> and the first run of the effect.\<close>
  "mount t0 srvs = effect_setup srvs \<lparr>clock = t0, traffic = [], interval = None, timeouts = []\<rparr>"

text \<open>
  The event loop, one millisecond at a time, with timers that fire in the millisecond
  they are due: first the timeouts that are due, in the order they were registered, then
  the interval, which is due again 500 ms later. What the surrounding application does
  in that millisecond comes last: nothing, a render with a new \<^verbatim>\<open>servers\<close> array (the
  effect is cleaned up and run again), or the unmount (the effect is cleaned up).
\<close>

datatype action = Idle | Render "server list" | Unmount

definition fire_timeouts :: "topology \<Rightarrow> topology" where
  "fire_timeouts st =
     (let due = filter (\<lambda>p. fst p \<le> clock st) (timeouts st);
          pending = filter (\<lambda>p. \<not> fst p \<le> clock st) (timeouts st)
      in foldl (\<lambda>s p. timeout_callback (snd p) s) (st\<lparr>timeouts := pending\<rparr>) due)"

definition fire_interval :: "rat \<Rightarrow> topology \<Rightarrow> topology" where
  "fire_interval r st =
     (case interval st of
        None \<Rightarrow> st
      | Some (due, srvs) \<Rightarrow>
          if due \<le> clock st then interval_callback r srvs (st\<lparr>interval := Some (due + 500, srvs)\<rparr>)
          else st)"

fun apply_action :: "action \<Rightarrow> topology \<Rightarrow> topology" where
  "apply_action Idle st = st"
| "apply_action (Render srvs) st = effect_setup srvs (effect_cleanup st)"
| "apply_action Unmount st = effect_cleanup st"

definition millisecond :: "rat \<times> action \<Rightarrow> topology \<Rightarrow> topology" where
  \<comment> \<open>One millisecond passes; the input is the random draw a tick would use and the action
      of the application.\<close>
  "millisecond inp st =
     apply_action (snd inp) (fire_interval (fst inp) (fire_timeouts (st\<lparr>clock := clock st + 1\<rparr>)))"

definition run :: "(rat \<times> action) list \<Rightarrow> topology \<Rightarrow> topology" where
  "run ins st = foldl (\<lambda>s inp. millisecond inp s) st ins"

fun is_render :: "action \<Rightarrow> bool" where
  "is_render (Render srvs) = True"
| "is_render a = False"

definition sched_inv :: "topology \<Rightarrow> bool" where
  \<comment> \<open>The invariant of the states reached from a mount: every event in flight is younger
      than 2000 ms and has its removal timer pending, every pending timer is due 2000 ms
      after the creation time it carries, and the ids are distinct.\<close>
  "sched_inv st =
     (list_all (\<lambda>e. ev_id e \<le> clock st \<and> clock st < ev_id e + 2000
                  \<and> (ev_id e + 2000, ev_id e) \<in> set (timeouts st)) (traffic st)
      \<and> list_all (\<lambda>p. fst p = snd p + 2000 \<and> snd p \<le> clock st \<and> clock st < fst p) (timeouts st)
      \<and> distinct (map ev_id (traffic st))
      \<and> distinct (map snd (timeouts st)))"

text \<open>
  What the interval callback adds to \<^verbatim>\<open>traffic\<close> in the millisecond after \<open>st\<close>: one
  event when the interval is due and its callback succeeds, nothing otherwise.
\<close>

definition created :: "rat \<Rightarrow> topology \<Rightarrow> event list" where
  "created r st =
     (case interval st of
        None \<Rightarrow> []
      | Some (due, srvs) \<Rightarrow>
          if due \<le> clock st + 1 \<and> srvs \<noteq> [] \<and> 0 \<le> \<lfloor>r * of_nat (length srvs)\<rfloor>
             \<and> \<lfloor>r * of_nat (length srvs)\<rfloor> < int (length srvs)
          then [\<lparr>ev_id = clock st + 1, ev_from = ''lb'',
                 ev_to = name (srvs ! nat \<lfloor>r * of_nat (length srvs)\<rfloor>)\<rparr>]
          else [])"

section \<open>Health classification\<close>

text \<open>
  C2. The health classifier is a total function of one entity snapshot and its first
  matching rule wins: \<open>healthy\<close> explicitly false gives \<open>unhealthy\<close> whatever the other
  fields are; otherwise a cpu usage above 80 or a memory usage above 85 gives
  \<open>warning\<close>; otherwise the result is \<open>healthy\<close>. A healthy server at cpu 90 is a
  warning, a healthy server at cpu 10 and memory 10 is healthy.
\<close>

theorem getServerStatus_first_match:
  "getServerStatus srv =
     (if healthy srv = Some False then ''unhealthy''
      else if (\<exists>c. cpu_usage srv = Some c \<and> c > 80) \<or> (\<exists>m. memory_usage srv = Some m \<and> m > 85)
           then ''warning''
      else ''healthy'')
   \<and> getServerStatus (srv\<lparr>healthy := Some False\<rparr>) = ''unhealthy''
   \<and> getServerStatus \<lparr>name = n, cpu_usage = Some 90, memory_usage = m, connections = k,
         healthy = Some True\<rparr> = ''warning''
   \<and> getServerStatus \<lparr>name = n, cpu_usage = Some 10, memory_usage = Some 10, connections = k,
         healthy = Some True\<rparr> = ''healthy''"
  by (auto simp: getServerStatus_def js_gt_def split: option.splits)

section \<open>The bounded history of a server\<close>

lemma slice_last_length: "length (slice_last k xs) = min k (length xs)"
  by (simp add: slice_last_def)

lemma slice_last_full: "length xs = Suc k \<Longrightarrow> slice_last k xs = tl xs"
  by (cases xs) (simp_all add: slice_last_def)

lemma slice_last_short: "length xs \<le> k \<Longrightarrow> slice_last k xs = xs"
  by (simp add: slice_last_def)

lemma setMetricsHistory_cases:
  "setMetricsHistory now srv prev =
     (if prev (prop_key (name srv)) = None \<and> object_prototype (prop_key (name srv)) \<noteq> None
      then Inl TypeError
      else Inr (prev(prop_key (name srv) \<mapsto>
                  slice_last 19 (samples_of prev (prop_key (name srv))) @ [newEntry now srv])))"
  by (auto simp: setMetricsHistory_def get_property_def samples_of_def split: option.splits)

lemma samples_of_upd:
  "samples_of (obj(key \<mapsto> h)) k = (if k = key then h else samples_of obj k)"
  by (simp add: samples_of_def)

lemma setMetricsHistory_bound:
  assumes "\<And>k. length (samples_of prev k) \<le> 20"
    and "setMetricsHistory now srv prev = Inr updated"
  shows "length (samples_of updated k) \<le> 20"
  using assms
  by (auto simp: setMetricsHistory_cases samples_of_upd slice_last_length split: if_splits)

lemma update_metrics_bound:
  "(\<And>k. length (samples_of prev k) \<le> 20) \<Longrightarrow> update_metrics batch prev = Inr updated \<Longrightarrow>
   length (samples_of updated k) \<le> 20"
proof (induction batch arbitrary: prev k)
  case Nil
  then show ?case by simp
next
  case (Cons p rest)
  obtain now srv where p: "p = (now, srv)" by (cases p)
  show ?case
  proof (cases "falsy_name (name srv)")
    case True
    with Cons.prems(2) p have "update_metrics rest prev = Inr updated" by simp
    with Cons.prems(1) show ?thesis by (rule Cons.IH)
  next
    case False
    with Cons.prems(2) p obtain mid where mid: "setMetricsHistory now srv prev = Inr mid"
      and rest: "update_metrics rest mid = Inr updated"
      by (auto split: sum.splits)
    have "\<And>j. length (samples_of mid j) \<le> 20"
      using Cons.prems(1) mid by (rule setMetricsHistory_bound)
    then show ?thesis using rest by (rule Cons.IH)
  qed
qed

lemma run_effects_from_bound:
  "(\<And>k. length (samples_of h0 k) \<le> 20) \<Longrightarrow> run_effects_from runs h0 = Inr h \<Longrightarrow>
   length (samples_of h k) \<le> 20"
proof (induction runs arbitrary: h0 k)
  case Nil
  then show ?case by simp
next
  case (Cons r runs)
  from Cons.prems(2) obtain mid where mid: "update_metrics r h0 = Inr mid"
    and rest: "run_effects_from runs mid = Inr h"
    by (auto split: sum.splits)
  have "\<And>j. length (samples_of mid j) \<le> 20"
    using Cons.prems(1) mid by (rule update_metrics_bound)
  then show ?case using rest by (rule Cons.IH)
qed

lemma update_metrics_returns:
  "\<forall>p \<in> set batch. object_prototype (prop_key (name (snd p))) = None \<Longrightarrow>
   \<exists>updated. update_metrics batch prev = Inr updated"
proof (induction batch arbitrary: prev)
  case Nil
  show ?case by simp
next
  case (Cons p rest)
  obtain now srv where p: "p = (now, srv)" by (cases p)
  from Cons.prems p have key: "object_prototype (prop_key (name srv)) = None" by simp
  from Cons.prems have "\<forall>p \<in> set rest. object_prototype (prop_key (name (snd p))) = None" by simp
  then have ih: "\<exists>updated. update_metrics rest h = Inr updated" for h by (rule Cons.IH)
  show ?case using ih key by (simp add: p setMetricsHistory_cases)
qed

lemma run_effects_from_returns:
  "\<forall>batch \<in> set runs. \<forall>p \<in> set batch. object_prototype (prop_key (name (snd p))) = None \<Longrightarrow>
   \<exists>h. run_effects_from runs h0 = Inr h"
proof (induction runs arbitrary: h0)
  case Nil
  show ?case by simp
next
  case (Cons r runs)
  from Cons.prems have "\<forall>p \<in> set r. object_prototype (prop_key (name (snd p))) = None" by simp
  then obtain mid where mid: "update_metrics r h0 = Inr mid"
    using update_metrics_returns by blast
  from Cons.prems
  have "\<forall>batch \<in> set runs. \<forall>p \<in> set batch. object_prototype (prop_key (name (snd p))) = None"
    by simp
  then have "\<exists>h. run_effects_from runs mid = Inr h" by (rule Cons.IH)
  with mid show ?case by simp
qed

text \<open>
  C3. After any number of runs of the history effect, from the empty history, the buffer
  of every server name holds at most 20 samples. An append to a buffer that holds 20
  samples drops exactly the oldest one and keeps the others in order; below 20 nothing is
  dropped, provided the name has a buffer or is no member of \<^verbatim>\<open>Object.prototype\<close>; the
  buffers of the other names are not touched. When no server is named as a member of
  \<^verbatim>\<open>Object.prototype\<close>, no run of the effect throws.
\<close>

theorem history_bounded_fifo:
  "(run_effects runs = Inr h \<longrightarrow> length (samples_of h k) \<le> 20)
   \<and> (length (samples_of prev (prop_key (name srv))) = 20 \<longrightarrow>
        setMetricsHistory now srv prev =
          Inr (prev(prop_key (name srv) \<mapsto>
                 tl (samples_of prev (prop_key (name srv))) @ [newEntry now srv])))
   \<and> (length (samples_of prev (prop_key (name srv))) < 20
        \<and> (prev (prop_key (name srv)) = None \<longrightarrow> object_prototype (prop_key (name srv)) = None) \<longrightarrow>
        setMetricsHistory now srv prev =
          Inr (prev(prop_key (name srv) \<mapsto>
                 samples_of prev (prop_key (name srv)) @ [newEntry now srv])))
   \<and> (setMetricsHistory now srv prev = Inr updated \<and> k \<noteq> prop_key (name srv) \<longrightarrow>
        samples_of updated k = samples_of prev k)
   \<and> ((\<forall>batch \<in> set runs. \<forall>p \<in> set batch. object_prototype (prop_key (name (snd p))) = None) \<longrightarrow>
        (\<exists>final. run_effects runs = Inr final))"
proof -
  have a: "run_effects runs = Inr h \<longrightarrow> length (samples_of h k) \<le> 20"
  proof
    assume "run_effects runs = Inr h"
    then have r: "run_effects_from runs Map.empty = Inr h" by (simp add: run_effects_def)
    have "\<And>j. length (samples_of Map.empty j) \<le> 20" by (simp add: samples_of_def)
    then show "length (samples_of h k) \<le> 20" using r by (rule run_effects_from_bound)
  qed
  have b: "length (samples_of prev (prop_key (name srv))) = 20 \<longrightarrow>
        setMetricsHistory now srv prev =
          Inr (prev(prop_key (name srv) \<mapsto>
                 tl (samples_of prev (prop_key (name srv))) @ [newEntry now srv]))"
  proof
    assume len: "length (samples_of prev (prop_key (name srv))) = 20"
    then have "prev (prop_key (name srv)) \<noteq> None"
      by (cases "prev (prop_key (name srv))") (simp_all add: samples_of_def)
    with len show "setMetricsHistory now srv prev =
          Inr (prev(prop_key (name srv) \<mapsto>
                 tl (samples_of prev (prop_key (name srv))) @ [newEntry now srv]))"
      by (simp add: setMetricsHistory_cases slice_last_full)
  qed
  have c: "length (samples_of prev (prop_key (name srv))) < 20
        \<and> (prev (prop_key (name srv)) = None \<longrightarrow> object_prototype (prop_key (name srv)) = None) \<longrightarrow>
        setMetricsHistory now srv prev =
          Inr (prev(prop_key (name srv) \<mapsto>
                 samples_of prev (prop_key (name srv)) @ [newEntry now srv]))"
    by (auto simp: setMetricsHistory_cases slice_last_short)
  have d: "setMetricsHistory now srv prev = Inr updated \<and> k \<noteq> prop_key (name srv) \<longrightarrow>
        samples_of updated k = samples_of prev k"
    by (auto simp: setMetricsHistory_cases samples_of_upd split: if_splits)
  have e: "(\<forall>batch \<in> set runs. \<forall>p \<in> set batch. object_prototype (prop_key (name (snd p))) = None) \<longrightarrow>
        (\<exists>final. run_effects runs = Inr final)"
    unfolding run_effects_def using run_effects_from_returns by blast
  from a b c d e show ?thesis by blast
qed

theorem history_bounded_fifo_witness:
  "\<not> isl (run_effects (replicate 25 [(0, \<lparr>name = Some ''s1'', cpu_usage = Some 30,
       memory_usage = Some 10, connections = None, healthy = Some True\<rparr>)]))
   \<and> length (samples_of (projr (run_effects (replicate 25 [(0, \<lparr>name = Some ''s1'', cpu_usage = Some 30,
       memory_usage = Some 10, connections = None, healthy = Some True\<rparr>)]))) ''s1'') \<le> 20
   \<and> length (samples_of (projr (run_effects (replicate 20 [(0, \<lparr>name = Some ''s1'', cpu_usage = Some 30,
       memory_usage = Some 10, connections = None, healthy = Some True\<rparr>)]))) ''s1'') = 20
   \<and> setMetricsHistory 99 \<lparr>name = Some ''s1'', cpu_usage = Some 30,
       memory_usage = Some 10, connections = None, healthy = Some True\<rparr>
         (projr (run_effects (replicate 20 [(0, \<lparr>name = Some ''s1'', cpu_usage = Some 30,
       memory_usage = Some 10, connections = None, healthy = Some True\<rparr>)])))
      = Inr ((projr (run_effects (replicate 20 [(0, \<lparr>name = Some ''s1'', cpu_usage = Some 30,
       memory_usage = Some 10, connections = None, healthy = Some True\<rparr>)])))(''s1'' \<mapsto>
          tl (samples_of (projr (run_effects (replicate 20 [(0, \<lparr>name = Some ''s1'', cpu_usage = Some 30,
       memory_usage = Some 10, connections = None, healthy = Some True\<rparr>)]))) ''s1'')
          @ [\<lparr>timestamp = 99, cpu = 30, memory = 10, conns = 0\<rparr>]))
   \<and> length (samples_of Map.empty ''s1'') < 20
   \<and> object_prototype ''s1'' = None
   \<and> setMetricsHistory 99 \<lparr>name = Some ''s1'', cpu_usage = Some 30,
       memory_usage = Some 10, connections = None, healthy = Some True\<rparr> Map.empty
      = Inr (Map.empty(''s1'' \<mapsto> [\<lparr>timestamp = 99, cpu = 30, memory = 10, conns = 0\<rparr>]))"
proof -
  let ?s = "\<lparr>name = Some ''s1'', cpu_usage = Some 30,
       memory_usage = Some 10, connections = None, healthy = Some True\<rparr>"
  let ?r25 = "run_effects (replicate 25 [(0, ?s)])"
  let ?h20 = "projr (run_effects (replicate 20 [(0, ?s)]))"
  have key: "prop_key (name ?s) = ''s1''" by (simp add: prop_key_def)
  have entry: "newEntry 99 ?s = \<lparr>timestamp = 99, cpu = 30, memory = 10, conns = 0\<rparr>"
    by (simp add: newEntry_def or_zero_def)
  have ordinary: "object_prototype ''s1'' = None" by (simp add: object_prototype_def)
  then have names: "\<forall>batch \<in> set (replicate 25 [(0::int, ?s)]). \<forall>p \<in> set batch.
      object_prototype (prop_key (name (snd p))) = None"
    by (simp add: prop_key_def object_prototype_def)
  from history_bounded_fifo [of "replicate 25 [(0, ?s)]" "projr ?r25" "''s1''" Map.empty ?s 99 Map.empty]
    names
  obtain final where final: "?r25 = Inr final" by blast
  then have r: "\<not> isl ?r25" and pr: "?r25 = Inr (projr ?r25)" by simp_all
  from history_bounded_fifo [of "replicate 25 [(0, ?s)]" "projr ?r25" "''s1''" Map.empty ?s 99 Map.empty]
    pr
  have a: "length (samples_of (projr ?r25) ''s1'') \<le> 20" by blast
  have full: "length (samples_of ?h20 ''s1'') = 20" by code_simp
  from history_bounded_fifo [of "[]" Map.empty "''s1''" ?h20 ?s 99 Map.empty] full
  have b: "setMetricsHistory 99 ?s ?h20
      = Inr (?h20(''s1'' \<mapsto> tl (samples_of ?h20 ''s1'')
               @ [\<lparr>timestamp = 99, cpu = 30, memory = 10, conns = 0\<rparr>]))"
    unfolding key entry by blast
  have short: "length (samples_of Map.empty ''s1'') < 20" by (simp add: samples_of_def)
  from history_bounded_fifo [of "[]" Map.empty "''s1''" Map.empty ?s 99 Map.empty] short ordinary
  have c: "setMetricsHistory 99 ?s Map.empty
      = Inr (Map.empty(''s1'' \<mapsto> [\<lparr>timestamp = 99, cpu = 30, memory = 10, conns = 0\<rparr>]))"
    unfolding key entry by (simp add: samples_of_def)
  from r a full b short ordinary c show ?thesis by blast
qed

section \<open>The trend of a metric\<close>





text \<open>
  The claim C10 as it is written fails for the key \<open>timestamp\<close>: it is none of
  \<open>cpu\<close>, \<open>memory\<close>, \<open>connections\<close>, yet every sample stores it and its trend is a
  number, the time between the last two samples.
\<close>

theorem calculateTrend_timestamp_counterexample:
  "''timestamp'' \<notin> {''cpu'', ''memory'', ''connections''}
   \<and> calculateTrend (Map.empty(''s1'' \<mapsto>
        [\<lparr>timestamp = 0, cpu = 10, memory = 10, conns = 0\<rparr>,
         \<lparr>timestamp = 5000, cpu = 30, memory = 10, conns = 0\<rparr>])) ''s1'' ''timestamp'' = Inr (Num 5000)"
  by (simp add: calculateTrend_def get_property_def slice_last_def js_sub_def sample_get_def)

text \<open>
  C10, amended. For a server with at least two recorded samples, the trend of any key
  that is not a field of the stored samples (\<open>timestamp\<close>, \<open>cpu\<close>, \<open>memory\<close>,
  \<open>connections\<close>) is \<^verbatim>\<open>NaN\<close>; \<open>avg_response_time\<close>, which the detail view asks for, is
  such a key.
\<close>

theorem calculateTrend_unstored_NaN:
  "2 \<le> length (samples_of mh n) \<Longrightarrow>
   metric \<notin> {''timestamp'', ''cpu'', ''memory'', ''connections''} \<Longrightarrow>
   calculateTrend mh n metric = Inr NaN"
  by (cases "mh n")
     (simp_all add: calculateTrend_def get_property_def samples_of_def Let_def js_sub_def sample_get_def)

theorem calculateTrend_unstored_NaN_witness:
  "2 \<le> length (samples_of (Map.empty(''s1'' \<mapsto>
        [\<lparr>timestamp = 0, cpu = 10, memory = 10, conns = 0\<rparr>,
         \<lparr>timestamp = 5000, cpu = 30, memory = 10, conns = 0\<rparr>])) ''s1'')
   \<and> ''avg_response_time'' \<notin> {''timestamp'', ''cpu'', ''memory'', ''connections''}
   \<and> calculateTrend (Map.empty(''s1'' \<mapsto>
        [\<lparr>timestamp = 0, cpu = 10, memory = 10, conns = 0\<rparr>,
         \<lparr>timestamp = 5000, cpu = 30, memory = 10, conns = 0\<rparr>])) ''s1'' ''avg_response_time'' = Inr NaN"
  using calculateTrend_unstored_NaN [of "Map.empty(''s1'' \<mapsto>
        [\<lparr>timestamp = 0, cpu = 10, memory = 10, conns = 0\<rparr>,
         \<lparr>timestamp = 5000, cpu = 30, memory = 10, conns = 0\<rparr>])" "''s1''" "''avg_response_time''"]
  by (simp add: samples_of_def)

section \<open>Rounding to a double\<close>

lemma ilog2_le:
  assumes "q \<noteq> 0"
  shows "2 powi (ilog2 q) \<le> \<bar>q\<bar>"
proof -
  define a where "a = \<bar>q\<bar>"
  define p where "p = fst (quotient_of a)"
  define d where "d = snd (quotient_of a)"
  define k where "k = bitlen p - bitlen d"
  have apos: "0 < a" using assms by (simp add: a_def)
  have qo: "quotient_of a = (p, d)" by (simp add: p_def d_def)
  have dpos: "0 < d" using qo by (rule quotient_of_denom_pos)
  have aeq: "a = of_int p / of_int d" using qo by (rule quotient_of_div)
  have ppos: "0 < p"
  proof (rule ccontr)
    assume "\<not> 0 < p"
    then have "of_int p \<le> (0::rat)" by simp
    with dpos have "a \<le> 0" unfolding aeq by (simp add: divide_nonpos_pos)
    with apos show False by simp
  qed
  have il: "ilog2 q = (if a < 2 powi k then k - 1 else k)"
    by (simp add: ilog2_def Let_def a_def p_def d_def k_def)
  show ?thesis
  proof (cases "a < 2 powi k")
    case False
    with il show ?thesis by (simp add: a_def)
  next
    case True
    from bitlen_bounds [OF ppos] have pl: "2 ^ nat (bitlen p - 1) \<le> p" by simp
    from bitlen_bounds [OF dpos] have du: "d < 2 ^ nat (bitlen d)" by simp
    have bp: "1 \<le> bitlen p" using ppos by (simp add: bitlen_alt_def)
    have bd: "0 \<le> bitlen d" by (rule bitlen_nonneg)
    have p1: "(2::rat) powi (bitlen p - 1) \<le> of_int p"
    proof -
      have "(2::rat) powi (bitlen p - 1) = 2 ^ nat (bitlen p - 1)"
        using bp by (simp add: power_int_def)
      also have "\<dots> = of_int (2 ^ nat (bitlen p - 1))" by simp
      also have "\<dots> \<le> of_int p" using pl by (simp only: of_int_le_iff)
      finally show ?thesis .
    qed
    have d1: "of_int d \<le> (2::rat) powi (bitlen d)"
    proof -
      have "(of_int d :: rat) \<le> of_int (2 ^ nat (bitlen d))" using du by simp
      also have "\<dots> = 2 ^ nat (bitlen d)" by simp
      also have "\<dots> = (2::rat) powi (bitlen d)" using bd by (simp add: power_int_def)
      finally show ?thesis .
    qed
    have k1: "k - 1 = (bitlen p - 1) - bitlen d" by (simp add: k_def)
    have "(2::rat) powi (k - 1) = 2 powi (bitlen p - 1) / 2 powi (bitlen d)"
      unfolding k1 by (rule power_int_diff) simp
    also have "\<dots> \<le> of_int p / 2 powi (bitlen d)"
      using p1 by (simp add: divide_right_mono)
    also have "\<dots> \<le> of_int p / of_int d"
      using d1 dpos ppos by (intro divide_left_mono) simp_all
    finally have "(2::rat) powi (k - 1) \<le> a" unfolding aeq .
    with True il show ?thesis by (simp add: a_def)
  qed
qed

lemma round_half_even_cases: "round_half_even m = \<lfloor>m\<rfloor> \<or> round_half_even m = \<lfloor>m\<rfloor> + 1"
  by (simp add: round_half_even_def Let_def)

lemma round_half_even_nonpos: "m \<le> 0 \<Longrightarrow> round_half_even m \<le> 0"
proof -
  assume m: "m \<le> 0"
  then have f: "\<lfloor>m\<rfloor> \<le> 0" by (simp add: floor_le_iff)
  show ?thesis
  proof (cases "m - of_int \<lfloor>m\<rfloor> < 1 / 2")
    case True
    with f show ?thesis by (simp add: round_half_even_def Let_def)
  next
    case False
    with m have lt: "of_int \<lfloor>m\<rfloor> < (0::rat)" by linarith
    have "\<lfloor>m\<rfloor> < 0" using lt unfolding of_int_less_0_iff .
    then have "\<lfloor>m\<rfloor> + 1 \<le> 0" by linarith
    with round_half_even_cases [of m] f show ?thesis by auto
  qed
qed

lemma round_half_even_nonneg: "0 \<le> m \<Longrightarrow> 0 \<le> round_half_even m"
  using round_half_even_cases [of m] by (auto simp: zero_le_floor)

lemma round_half_even_ge: "m - 1 / 2 \<le> of_int (round_half_even m)"
proof -
  have "\<not> m - of_int \<lfloor>m\<rfloor> < 1 / 2 \<Longrightarrow> m - 1 / 2 < of_int \<lfloor>m\<rfloor> + 1"
    by linarith
  moreover have "m - of_int \<lfloor>m\<rfloor> < 1 / 2 \<Longrightarrow> m - 1 / 2 \<le> of_int \<lfloor>m\<rfloor>"
    by linarith
  ultimately show ?thesis by (auto simp: round_half_even_def Let_def)
qed

lemma fl_nonpos: "q \<le> 0 \<Longrightarrow> d_le0 (fl q)"
proof -
  assume q: "q \<le> 0"
  have "round_half_even (q / 2 powi e) \<le> 0" for e
    using q by (intro round_half_even_nonpos) (simp add: divide_nonpos_pos)
  then have "of_int (round_half_even (q / 2 powi e)) * (2::rat) powi e \<le> 0" for e
    by (simp add: mult_nonpos_nonneg)
  with q show ?thesis by (auto simp: fl_def Let_def)
qed

lemma fl_nonneg: "0 \<le> q \<Longrightarrow> d_ge0 (fl q)"
proof -
  assume q: "0 \<le> q"
  have "0 \<le> round_half_even (q / 2 powi e)" for e
    using q by (intro round_half_even_nonneg) simp
  then have "0 \<le> of_int (round_half_even (q / 2 powi e)) * (2::rat) powi e" for e
    by simp
  with q show ?thesis by (auto simp: fl_def Let_def)
qed

lemma fl_finite:
  assumes "\<bar>q\<bar> < 2 powi 1023"
  shows "\<exists>v. fl q = Dbl v"
proof (cases "q = 0")
  case True
  then show ?thesis by (simp add: fl_def)
next
  case False
  have "(2::rat) powi (ilog2 q) < 2 powi 1023" using ilog2_le [OF False] assms by simp
  then have "ilog2 q < 1023" by (rule power_int_le_imp_less_exp [rotated]) simp_all
  with False show ?thesis by (auto simp: fl_def Let_def max_def)
qed

lemma fl_positive:
  assumes "2 powi (- 1022) \<le> q"
  shows "fl q = PosInf \<or> (\<exists>v. fl q = Dbl v \<and> q / 2 \<le> v)"
proof -
  have qpos: "0 < q"
  proof -
    have "(0::rat) < 2 powi (- 1022)" by simp
    with assms show ?thesis by simp
  qed
  then have q0: "q \<noteq> 0" by simp
  define e where "e = max (ilog2 q) (- 1022)"
  define ulp where "ulp = (2::rat) powi (e - 52)"
  define m where "m = round_half_even (q / ulp)"
  have upos: "0 < ulp" by (simp add: ulp_def)
  have "(2::rat) powi e \<le> q"
  proof (cases "ilog2 q \<le> - 1022")
    case True
    then have "e = - 1022" by (simp add: e_def)
    with assms show ?thesis by simp
  next
    case False
    then have "e = ilog2 q" by (simp add: e_def)
    with ilog2_le [OF q0] qpos show ?thesis by simp
  qed
  moreover have "(2::rat) powi e = ulp * 2 ^ 52"
    by (simp add: ulp_def power_int_diff)
  ultimately have big: "ulp * 2 ^ 52 \<le> q" by simp
  have "q / ulp - 1 / 2 \<le> of_int m" unfolding m_def by (rule round_half_even_ge)
  then have "(q / ulp - 1 / 2) * ulp \<le> of_int m * ulp"
    using upos by (simp only: mult_le_cancel_right_pos)
  then have low: "q - ulp / 2 \<le> of_int m * ulp"
    using upos by (simp add: algebra_simps)
  from big upos have "ulp \<le> q" by (simp add: mult_le_cancel_left1)
  with low have half: "q / 2 \<le> of_int m * ulp" by simp
  show ?thesis
  proof (cases "1024 \<le> e \<or> (e = 1023 \<and> 2 ^ 53 \<le> \<bar>m\<bar>)")
    case True
    with q0 qpos show ?thesis by (simp add: fl_def Let_def e_def ulp_def m_def)
  next
    case False
    with q0 have "fl q = Dbl (of_int m * ulp)"
      by (simp add: fl_def Let_def e_def ulp_def m_def)
    with half show ?thesis by simp
  qed
qed

lemma ilog2_less:
  assumes "q \<noteq> 0"
  shows "\<bar>q\<bar> < 2 powi (ilog2 q + 1)"
proof -
  define a where "a = \<bar>q\<bar>"
  define p where "p = fst (quotient_of a)"
  define d where "d = snd (quotient_of a)"
  define k where "k = bitlen p - bitlen d"
  have apos: "0 < a" using assms by (simp add: a_def)
  have qo: "quotient_of a = (p, d)" by (simp add: p_def d_def)
  have dpos: "0 < d" using qo by (rule quotient_of_denom_pos)
  have aeq: "a = of_int p / of_int d" using qo by (rule quotient_of_div)
  have ppos: "0 < p"
  proof (rule ccontr)
    assume "\<not> 0 < p"
    then have "of_int p \<le> (0::rat)" by simp
    with dpos have "a \<le> 0" unfolding aeq by (simp add: divide_nonpos_pos)
    with apos show False by simp
  qed
  have il: "ilog2 q = (if a < 2 powi k then k - 1 else k)"
    by (simp add: ilog2_def Let_def a_def p_def d_def k_def)
  show ?thesis
  proof (cases "a < 2 powi k")
    case True
    with il show ?thesis by (simp add: a_def)
  next
    case False
    from bitlen_bounds [OF ppos] have pu: "p < 2 ^ nat (bitlen p)" by simp
    from bitlen_bounds [OF dpos] have dl: "2 ^ nat (bitlen d - 1) \<le> d" by simp
    have bp: "0 \<le> bitlen p" by (rule bitlen_nonneg)
    have bd: "1 \<le> bitlen d" using dpos by (simp add: bitlen_alt_def)
    have p1: "of_int p < (2::rat) powi (bitlen p)"
    proof -
      have "(of_int p :: rat) < of_int (2 ^ nat (bitlen p))" using pu by (simp only: of_int_less_iff)
      also have "\<dots> = 2 ^ nat (bitlen p)" by simp
      also have "\<dots> = (2::rat) powi (bitlen p)" using bp by (simp add: power_int_def)
      finally show ?thesis .
    qed
    have d1: "(2::rat) powi (bitlen d - 1) \<le> of_int d"
    proof -
      have "(2::rat) powi (bitlen d - 1) = 2 ^ nat (bitlen d - 1)"
        using bd by (simp add: power_int_def)
      also have "\<dots> = of_int (2 ^ nat (bitlen d - 1))" by simp
      also have "\<dots> \<le> of_int d" using dl by (simp only: of_int_le_iff)
      finally show ?thesis .
    qed
    have k1: "k + 1 = bitlen p - (bitlen d - 1)" by (simp add: k_def)
    have "a < 2 powi (bitlen p) / of_int d"
      unfolding aeq using p1 dpos by (simp add: divide_strict_right_mono)
    also have "\<dots> \<le> 2 powi (bitlen p) / 2 powi (bitlen d - 1)"
      using d1 dpos by (intro divide_left_mono) simp_all
    also have "\<dots> = (2::rat) powi (k + 1)"
      unfolding k1 by (rule power_int_diff [symmetric]) simp
    finally have "a < 2 powi (k + 1)" .
    with False il show ?thesis by (simp add: a_def)
  qed
qed

section \<open>The request rate\<close>

lemma js_round_zero: "js_round (Dbl 0) = Dbl 0"
  by (simp add: floor_eq_iff)

lemma js_round_nonpos: "d_le0 x \<Longrightarrow> d_le0 (js_round x)"
  by (cases x) (simp_all add: floor_le_iff)

lemma js_round_nonneg: "d_ge0 x \<Longrightarrow> d_ge0 (js_round x)"
  by (cases x) simp_all

lemma timeDiff_positive:
  assumes "(0::int) < n"
  shows "d_gt0 (d_div (d_sub (Dbl (of_int a)) (Dbl (of_int (a - n)))) (Dbl 1000))"
proof -
  have small: "(2::rat) powi (- 1022) \<le> 1 / 2000"
  proof -
    have "(2::rat) powi (- 1022) \<le> 2 powi (- 11)" by (rule power_int_increasing) simp_all
    also have "\<dots> \<le> 1 / 2000" by (simp add: power_int_minus)
    finally show ?thesis .
  qed
  have one: "(1::rat) \<le> of_int n" using assms by simp
  then have "(2::rat) powi (- 1022) \<le> of_int n" using small by simp
  from fl_positive [OF this] have "fl (of_int n) = PosInf \<or> (\<exists>v. fl (of_int n) = Dbl v \<and> of_int n / 2 \<le> v)" .
  then show ?thesis
  proof
    assume "fl (of_int n) = PosInf"
    then show ?thesis by simp
  next
    assume "\<exists>v. fl (of_int n) = Dbl v \<and> of_int n / 2 \<le> v"
    then obtain v where v: "fl (of_int n) = Dbl v" "of_int n / 2 \<le> v" by blast
    with one have vh: "1 / 2 \<le> v" by simp
    then have "(2::rat) powi (- 1022) \<le> v / 1000" using small by simp
    from fl_positive [OF this] vh have "d_gt0 (fl (v / 1000))" by auto
    with v vh show ?thesis by simp
  qed
qed

lemma timeDiff_not_positive:
  assumes "n \<le> (0::int)"
  shows "\<not> d_gt0 (d_div (d_sub (Dbl (of_int a)) (Dbl (of_int (a - n)))) (Dbl 1000))"
proof -
  have "(of_int n :: rat) \<le> 0" using assms by simp
  from fl_nonpos [OF this] have le: "d_le0 (fl (of_int n))" .
  show ?thesis
  proof (cases "fl (of_int n)")
    case (Dbl v)
    with le have "v / 1000 \<le> 0" by simp
    from fl_nonpos [OF this] have "d_le0 (fl (v / 1000))" .
    then have "\<not> d_gt0 (fl (v / 1000))" by (cases "fl (v / 1000)") simp_all
    with Dbl show ?thesis by simp
  qed (use le in simp_all)
qed

lemma quotient_nonpos:
  assumes "d_le0 c" and "d_gt0 t" and "c \<noteq> NegInf \<or> t \<noteq> PosInf"
  shows "d_le0 (d_div c t)"
  using assms by (cases c; cases t) (auto intro: fl_nonpos simp: divide_nonpos_pos)

lemma quotient_nonneg:
  assumes "d_ge0 c" and "d_gt0 t" and "c \<noteq> PosInf \<or> t \<noteq> PosInf"
  shows "d_ge0 (d_div c t)"
  using assms by (cases c; cases t) (auto intro: fl_nonneg)

lemma last_nth_2: "2 \<le> length xs \<Longrightarrow> last xs = xs ! (length xs - 1)"
  by (rule last_conv_nth) auto

text \<open>
  The claim C1 as it is written fails: with the counter at 300 and one second later at
  100, the reported rate is \<open>-200\<close>, not 0. Nothing clamps the rate.
\<close>

theorem requestRate_regression_counterexample:
  "requestRate (calculateAlgorithmPerformance 0 0 0
     [\<lparr>entry_algorithm = ''round_robin'', entry_timestamp = 0, healthyServers = 3, totalRequests = 300\<rparr>,
      \<lparr>entry_algorithm = ''random'', entry_timestamp = 1000, healthyServers = 3, totalRequests = 100\<rparr>])
   = Dbl (- 200)"
  by code_simp

text \<open>
  C1, amended. With fewer than two snapshots the rate is 0. Otherwise, when the later
  timestamp is the greater one, the rate is \<^verbatim>\<open>Math.round\<close> of the change of
  \<open>totalRequests\<close> between the two most recent snapshots divided by the seconds between
  them, each operation rounded as a double; it is 0 when the later timestamp is not the
  greater one. The rate is not clamped: when the counter has decreased the rate is zero
  or negative, when it has not decreased the rate is zero or positive (for counts below
  \<open>2 ^ 1022\<close> in size, whose difference is finite). 17 requests in 272 ms give 62,
  where the exact quotient 62.5 would round to 63.
\<close>

theorem requestRate_unclamped:
  "(length h < 2 \<longrightarrow> requestRate (calculateAlgorithmPerformance r1 r2 r3 h) = Dbl 0)
   \<and> (2 \<le> length h \<longrightarrow>
        requestRate (calculateAlgorithmPerformance r1 r2 r3 h) =
          (if entry_timestamp (h ! (length h - 2)) < entry_timestamp (last h)
           then js_round
                  (d_div (d_sub (Dbl (totalRequests (last h))) (Dbl (totalRequests (h ! (length h - 2)))))
                     (d_div (d_sub (Dbl (of_int (entry_timestamp (last h))))
                                   (Dbl (of_int (entry_timestamp (h ! (length h - 2))))))
                        (Dbl 1000)))
           else Dbl 0)
      \<and> (\<bar>totalRequests (last h)\<bar> < 2 ^ 1022 \<and> \<bar>totalRequests (h ! (length h - 2))\<bar> < 2 ^ 1022
           \<and> totalRequests (last h) < totalRequests (h ! (length h - 2)) \<longrightarrow>
            d_le0 (requestRate (calculateAlgorithmPerformance r1 r2 r3 h)))
      \<and> (\<bar>totalRequests (last h)\<bar> < 2 ^ 1022 \<and> \<bar>totalRequests (h ! (length h - 2))\<bar> < 2 ^ 1022
           \<and> totalRequests (h ! (length h - 2)) \<le> totalRequests (last h) \<longrightarrow>
            d_ge0 (requestRate (calculateAlgorithmPerformance r1 r2 r3 h))))"
proof -
  define tc where "tc = totalRequests (last h)"
  define tp where "tp = totalRequests (h ! (length h - 2))"
  define sc where "sc = entry_timestamp (last h)"
  define sp where "sp = entry_timestamp (h ! (length h - 2))"
  define timeDiff where "timeDiff = d_div (d_sub (Dbl (of_int sc)) (Dbl (of_int sp))) (Dbl 1000)"
  define requestChange where "requestChange = d_sub (Dbl tc) (Dbl tp)"
  have td: "timeDiff = d_div (d_sub (Dbl (of_int sc)) (Dbl (of_int (sc - (sc - sp))))) (Dbl 1000)"
    by (simp add: timeDiff_def)
  have gt: "d_gt0 timeDiff \<longleftrightarrow> sp < sc"
  proof (cases "sp < sc")
    case True
    then have "0 < sc - sp" by simp
    from timeDiff_positive [OF this, of sc] True show ?thesis unfolding td by simp
  next
    case False
    then have "sc - sp \<le> 0" by simp
    from timeDiff_not_positive [OF this, of sc] False show ?thesis unfolding td by simp
  qed
  have short: "length h < 2 \<longrightarrow> requestRate (calculateAlgorithmPerformance r1 r2 r3 h) = Dbl 0"
    by (simp add: calculateAlgorithmPerformance_def)
  have eq: "requestRate (calculateAlgorithmPerformance r1 r2 r3 h) =
      (if sp < sc then js_round (d_div requestChange timeDiff) else Dbl 0)" if "2 \<le> length h"
  proof -
    from that have "requestRate (calculateAlgorithmPerformance r1 r2 r3 h) =
      js_round (if d_gt0 timeDiff then d_div requestChange timeDiff else Dbl 0)"
      by (simp add: calculateAlgorithmPerformance_def Let_def last_nth_2 timeDiff_def
            requestChange_def tc_def tp_def sc_def sp_def)
    then show ?thesis by (simp add: gt js_round_zero del: js_round.simps)
  qed
  have fin: "\<exists>c. requestChange = Dbl c" if "\<bar>tc\<bar> < 2 ^ 1022" "\<bar>tp\<bar> < 2 ^ 1022"
  proof -
    have "\<bar>tc - tp\<bar> \<le> \<bar>tc\<bar> + \<bar>tp\<bar>" by simp
    also have "\<dots> < 2 ^ 1022 + 2 ^ 1022" using that by (rule add_strict_mono)
    also have "\<dots> = (2::rat) powi 1023" by simp
    finally show ?thesis unfolding requestChange_def d_sub.simps by (rule fl_finite)
  qed
  have neg: "d_le0 (requestRate (calculateAlgorithmPerformance r1 r2 r3 h))"
    if len: "2 \<le> length h" and b: "\<bar>tc\<bar> < 2 ^ 1022" "\<bar>tp\<bar> < 2 ^ 1022" and lt: "tc < tp"
  proof (cases "sp < sc")
    case True
    from lt have "tc - tp \<le> 0" by simp
    from fl_nonpos [OF this] have c: "d_le0 requestChange" by (simp add: requestChange_def)
    from fin [OF b] have "requestChange \<noteq> NegInf" by auto
    with c gt True have "d_le0 (d_div requestChange timeDiff)" by (intro quotient_nonpos) simp_all
    then have "d_le0 (js_round (d_div requestChange timeDiff))" by (rule js_round_nonpos)
    with eq [OF len] True show ?thesis by simp
  next
    case False
    with eq [OF len] show ?thesis by simp
  qed
  have pos: "d_ge0 (requestRate (calculateAlgorithmPerformance r1 r2 r3 h))"
    if len: "2 \<le> length h" and b: "\<bar>tc\<bar> < 2 ^ 1022" "\<bar>tp\<bar> < 2 ^ 1022" and le: "tp \<le> tc"
  proof (cases "sp < sc")
    case True
    from le have "0 \<le> tc - tp" by simp
    from fl_nonneg [OF this] have c: "d_ge0 requestChange" by (simp add: requestChange_def)
    from fin [OF b] have "requestChange \<noteq> PosInf" by auto
    with c gt True have "d_ge0 (d_div requestChange timeDiff)" by (intro quotient_nonneg) simp_all
    then have "d_ge0 (js_round (d_div requestChange timeDiff))" by (rule js_round_nonneg)
    with eq [OF len] True show ?thesis by simp
  next
    case False
    with eq [OF len] show ?thesis by simp
  qed
  from short eq neg pos show ?thesis
    unfolding tc_def tp_def sc_def sp_def timeDiff_def requestChange_def by blast
qed

theorem requestRate_unclamped_witness:
  "requestRate (calculateAlgorithmPerformance 0 0 0
      [\<lparr>entry_algorithm = ''round_robin'', entry_timestamp = 0, healthyServers = 3, totalRequests = 100\<rparr>,
       \<lparr>entry_algorithm = ''random'', entry_timestamp = 2000, healthyServers = 3, totalRequests = 300\<rparr>])
     = Dbl 100
   \<and> requestRate (calculateAlgorithmPerformance 0 0 0
      [\<lparr>entry_algorithm = ''round_robin'', entry_timestamp = 0, healthyServers = 3, totalRequests = 100\<rparr>,
       \<lparr>entry_algorithm = ''random'', entry_timestamp = 272, healthyServers = 3, totalRequests = 117\<rparr>])
     = Dbl 62
   \<and> (\<bar>200\<bar> :: rat) < 2 ^ 1022 \<and> (\<bar>500\<bar> :: rat) < 2 ^ 1022 \<and> (200 :: rat) < 500
   \<and> d_le0 (requestRate (calculateAlgorithmPerformance 0 0 0
      [\<lparr>entry_algorithm = ''round_robin'', entry_timestamp = 0, healthyServers = 3, totalRequests = 500\<rparr>,
       \<lparr>entry_algorithm = ''random'', entry_timestamp = 3000, healthyServers = 3, totalRequests = 200\<rparr>]))
   \<and> requestRate (calculateAlgorithmPerformance 0 0 0
      [\<lparr>entry_algorithm = ''round_robin'', entry_timestamp = 3000, healthyServers = 3, totalRequests = 100\<rparr>,
       \<lparr>entry_algorithm = ''random'', entry_timestamp = 3000, healthyServers = 3, totalRequests = 300\<rparr>])
     = Dbl 0
   \<and> requestRate (calculateAlgorithmPerformance 0 0 0 []) = Dbl 0"
proof -
  let ?up = "[\<lparr>entry_algorithm = ''round_robin'', entry_timestamp = 0, healthyServers = 3, totalRequests = 100\<rparr>,
       \<lparr>entry_algorithm = ''random'', entry_timestamp = 2000, healthyServers = 3, totalRequests = 300\<rparr>]"
  let ?tie = "[\<lparr>entry_algorithm = ''round_robin'', entry_timestamp = 0, healthyServers = 3, totalRequests = 100\<rparr>,
       \<lparr>entry_algorithm = ''random'', entry_timestamp = 272, healthyServers = 3, totalRequests = 117\<rparr>]"
  let ?down = "[\<lparr>entry_algorithm = ''round_robin'', entry_timestamp = 0, healthyServers = 3, totalRequests = 500\<rparr>,
       \<lparr>entry_algorithm = ''random'', entry_timestamp = 3000, healthyServers = 3, totalRequests = 200\<rparr>]"
  let ?same = "[\<lparr>entry_algorithm = ''round_robin'', entry_timestamp = 3000, healthyServers = 3, totalRequests = 100\<rparr>,
       \<lparr>entry_algorithm = ''random'', entry_timestamp = 3000, healthyServers = 3, totalRequests = 300\<rparr>]"
  have q1: "js_round (d_div (d_sub (Dbl 300) (Dbl 100))
               (d_div (d_sub (Dbl (of_int 2000)) (Dbl (of_int 0))) (Dbl 1000))) = Dbl 100"
    by code_simp
  have q2: "js_round (d_div (d_sub (Dbl 117) (Dbl 100))
               (d_div (d_sub (Dbl (of_int 272)) (Dbl (of_int 0))) (Dbl 1000))) = Dbl 62"
    by code_simp
  have a: "requestRate (calculateAlgorithmPerformance 0 0 0 ?up) = Dbl 100"
    using requestRate_unclamped [of ?up 0 0 0] q1 by simp
  have b: "requestRate (calculateAlgorithmPerformance 0 0 0 ?tie) = Dbl 62"
    using requestRate_unclamped [of ?tie 0 0 0] q2 by simp
  have bounds: "(\<bar>200\<bar> :: rat) < 2 ^ 1022" "(\<bar>500\<bar> :: rat) < 2 ^ 1022" "(200 :: rat) < 500"
    by simp_all
  have c: "d_le0 (requestRate (calculateAlgorithmPerformance 0 0 0 ?down))"
  proof -
    have len: "2 \<le> length ?down" by simp
    have dec: "\<bar>totalRequests (last ?down)\<bar> < 2 ^ 1022
        \<and> \<bar>totalRequests (?down ! (length ?down - 2))\<bar> < 2 ^ 1022
        \<and> totalRequests (last ?down) < totalRequests (?down ! (length ?down - 2))"
      by simp
    from requestRate_unclamped [of ?down 0 0 0] len dec show ?thesis by blast
  qed
  have d: "requestRate (calculateAlgorithmPerformance 0 0 0 ?same) = Dbl 0"
    using requestRate_unclamped [of ?same 0 0 0] by simp
  have e: "requestRate (calculateAlgorithmPerformance 0 0 0 []) = Dbl 0"
    using requestRate_unclamped [of "[]" 0 0 0] by simp
  from a b bounds c d e show ?thesis by blast
qed

section \<open>The traffic log\<close>

lemma trafficData_bound_51:
  "length (trafficData st) \<le> 51 \<Longrightarrow> length (trafficData (onmessage msg st)) \<le> 51"
  by (cases msg) (simp_all add: onmessage_def slice_last_def)

lemma trafficData_never_above_51:
  "length (trafficData st) \<le> 51 \<Longrightarrow>
   length (trafficData (foldl (\<lambda>st msg. onmessage msg st) st msgs)) \<le> 51"
  by (induction msgs arbitrary: st) (simp_all add: trafficData_bound_51)

text \<open>
  C6. The claim bounds the rolling traffic log by 50 entries. The updater keeps the last
  50 entries and then appends the new payload, so the log grows to 51: after 51
  \<^verbatim>\<open>traffic_update\<close> messages, from the empty log, it holds all 51 payloads.
\<close>

theorem onmessage_log_holds_51:
  "length (trafficData (foldl (\<lambda>st msg. onmessage msg st) (initial_app :: nat app_state)
          (map Traffic_update [0..<51]))) = 51"
  by code_simp

section \<open>Changing the algorithm\<close>

text \<open>
  The claim C9 as it is written fails: on success \<^verbatim>\<open>changeAlgorithm\<close> also calls
  \<^verbatim>\<open>fetchStats()\<close>, and the response of that poll replaces \<open>stats\<close> and \<open>servers\<close>. From
  the initial state, a successful change followed by a poll response that lists one
  server leaves that server in \<open>servers\<close>, which was empty.
\<close>

theorem changeAlgorithm_refreshes_counterexample:
  "servers (initial_app :: nat app_state) = []
   \<and> servers (changeAlgorithm ''random'' (Body \<lparr>success = Some True\<rparr>)
        (Body \<lparr>total_requests = Some 7, healthy_servers = Some 1, total_servers = Some 1,
           stats_algorithm = Some ''random'',
           server_stats = Some [\<lparr>name = Some ''s1'', cpu_usage = Some 30, memory_usage = Some 10,
             connections = None, healthy = Some True\<rparr>]\<rparr>)
        (initial_app :: nat app_state))
     = [\<lparr>name = Some ''s1'', cpu_usage = Some 30, memory_usage = Some 10, connections = None,
         healthy = Some True\<rparr>]"
  by (simp add: changeAlgorithm_def fetchStats_def initial_app_def)

text \<open>
  C9, amended. When the command answers \<^verbatim>\<open>{success: true}\<close>, the operation sets the
  algorithm label and polls \<^verbatim>\<open>/stats\<close>: the label is the new one, and beyond it only
  what the poll writes can change, \<open>stats\<close> and \<open>servers\<close> when the poll answers, nothing
  when it fails. The traffic log and the simulation flag are never changed. When the
  command does not succeed, the state is left as it was.
\<close>

theorem changeAlgorithm_frame:
  "trafficData (changeAlgorithm newAlgo resp stats_resp st) = trafficData st
   \<and> isSimulating (changeAlgorithm newAlgo resp stats_resp st) = isSimulating st
   \<and> (resp = Body \<lparr>success = Some True\<rparr> \<longrightarrow>
        algorithm (changeAlgorithm newAlgo resp stats_resp st) = newAlgo
        \<and> (stats_resp = Threw \<longrightarrow>
              changeAlgorithm newAlgo resp stats_resp st = st\<lparr>algorithm := newAlgo\<rparr>)
        \<and> (\<forall>d. stats_resp = Body d \<longrightarrow>
              changeAlgorithm newAlgo resp stats_resp st =
                st\<lparr>algorithm := newAlgo, stats := Some d,
                   servers := (case server_stats d of None \<Rightarrow> [] | Some l \<Rightarrow> l)\<rparr>))
   \<and> (resp \<noteq> Body \<lparr>success = Some True\<rparr> \<longrightarrow> changeAlgorithm newAlgo resp stats_resp st = st)"
  by (cases resp; cases stats_resp) (auto simp: changeAlgorithm_def fetchStats_def)

theorem changeAlgorithm_frame_witness:
  "changeAlgorithm ''random'' (Body \<lparr>success = Some True\<rparr>) Threw (initial_app :: nat app_state)
     = initial_app\<lparr>algorithm := ''random''\<rparr>
   \<and> changeAlgorithm ''random'' (Body \<lparr>success = Some True\<rparr>)
        (Body \<lparr>total_requests = None, healthy_servers = None, total_servers = None,
           stats_algorithm = None, server_stats = None\<rparr>) (initial_app :: nat app_state)
     = initial_app\<lparr>algorithm := ''random'',
         stats := Some \<lparr>total_requests = None, healthy_servers = None, total_servers = None,
           stats_algorithm = None, server_stats = None\<rparr>,
         servers := []\<rparr>
   \<and> Body \<lparr>success = Some False\<rparr> \<noteq> Body \<lparr>success = Some True\<rparr>
   \<and> changeAlgorithm ''random'' (Body \<lparr>success = Some False\<rparr>) Threw (initial_app :: nat app_state)
     = initial_app"
  using changeAlgorithm_frame [of "''random''" "Body \<lparr>success = Some True\<rparr>" Threw
      "initial_app :: nat app_state"]
    changeAlgorithm_frame [of "''random''" "Body \<lparr>success = Some True\<rparr>"
      "Body \<lparr>total_requests = None, healthy_servers = None, total_servers = None,
           stats_algorithm = None, server_stats = None\<rparr>" "initial_app :: nat app_state"]
    changeAlgorithm_frame [of "''random''" "Body \<lparr>success = Some False\<rparr>" Threw
      "initial_app :: nat app_state"]
  by simp

section \<open>The layout\<close>








section \<open>The lifetime of a traffic event\<close>

lemma foldl_timeout_callback:
  "foldl (\<lambda>s p. timeout_callback (snd p) s) st due =
     st\<lparr>traffic := filter (\<lambda>t. ev_id t \<notin> snd ` set due) (traffic st)\<rparr>"
proof (induction due arbitrary: st)
  case Nil
  show ?case by simp
next
  case (Cons p due)
  have "filter (\<lambda>t. ev_id t \<notin> snd ` set due) (filter (\<lambda>t. ev_id t \<noteq> snd p) (traffic st))
        = filter (\<lambda>t. ev_id t \<notin> snd ` set (p # due)) (traffic st)"
    by (auto intro: filter_cong)
  moreover have "foldl (\<lambda>s p. timeout_callback (snd p) s) st (p # due) =
      (timeout_callback (snd p) st)\<lparr>traffic :=
         filter (\<lambda>t. ev_id t \<notin> snd ` set due) (traffic (timeout_callback (snd p) st))\<rparr>"
    using Cons.IH [of "timeout_callback (snd p) st"] by simp
  ultimately show ?case by (simp add: timeout_callback_def)
qed

lemma fire_timeouts_eq:
  "fire_timeouts st =
     st\<lparr>timeouts := filter (\<lambda>p. \<not> fst p \<le> clock st) (timeouts st),
        traffic := filter (\<lambda>t. ev_id t \<notin> snd ` {p \<in> set (timeouts st). fst p \<le> clock st}) (traffic st)\<rparr>"
  by (simp add: fire_timeouts_def Let_def foldl_timeout_callback)

lemma clock_millisecond: "clock (millisecond inp st) = clock st + 1"
  by (cases "snd inp")
     (auto simp: millisecond_def fire_interval_def fire_timeouts_eq interval_callback_def Let_def
        effect_setup_def effect_cleanup_def split: option.splits)

lemma traffic_millisecond:
  "traffic (millisecond inp st) =
     filter (\<lambda>t. ev_id t \<notin> snd ` {p \<in> set (timeouts st). fst p \<le> clock st + 1}) (traffic st)
     @ created (fst inp) st"
  by (cases "snd inp")
     (auto simp: millisecond_def fire_interval_def fire_timeouts_eq interval_callback_def Let_def
        effect_setup_def effect_cleanup_def created_def split: option.splits)

lemma timeouts_millisecond:
  "timeouts (millisecond inp st) =
     filter (\<lambda>p. \<not> fst p \<le> clock st + 1) (timeouts st)
     @ map (\<lambda>e. (ev_id e + 2000, ev_id e)) (created (fst inp) st)"
  by (cases "snd inp")
     (auto simp: millisecond_def fire_interval_def fire_timeouts_eq interval_callback_def Let_def
        effect_setup_def effect_cleanup_def created_def split: option.splits)

lemma created_id: "e \<in> set (created r st) \<Longrightarrow> ev_id e = clock st + 1"
  by (auto simp: created_def split: option.splits if_splits)

lemma sched_inv_iff:
  "sched_inv st \<longleftrightarrow>
     (\<forall>e \<in> set (traffic st). ev_id e \<le> clock st \<and> clock st < ev_id e + 2000
         \<and> (ev_id e + 2000, ev_id e) \<in> set (timeouts st))
     \<and> (\<forall>p \<in> set (timeouts st). fst p = snd p + 2000 \<and> snd p \<le> clock st \<and> clock st < fst p)
     \<and> distinct (map ev_id (traffic st))
     \<and> distinct (map snd (timeouts st))"
  by (simp add: sched_inv_def list_all_iff)

lemma sched_inv_mount: "sched_inv (mount t0 srvs)"
  by (simp add: sched_inv_iff mount_def effect_setup_def)

lemma sched_inv_millisecond:
  assumes inv: "sched_inv st"
  shows "sched_inv (millisecond inp st)"
proof -
  let ?c = "clock st + 1"
  let ?new = "created (fst inp) st"
  let ?keep = "filter (\<lambda>t. ev_id t \<notin> snd ` {p \<in> set (timeouts st). fst p \<le> ?c}) (traffic st)"
  let ?pend = "filter (\<lambda>p. \<not> fst p \<le> ?c) (timeouts st)"
  from inv have ev: "\<And>e. e \<in> set (traffic st) \<Longrightarrow> ev_id e \<le> clock st \<and> clock st < ev_id e + 2000
         \<and> (ev_id e + 2000, ev_id e) \<in> set (timeouts st)"
    and tm: "\<And>p. p \<in> set (timeouts st) \<Longrightarrow> fst p = snd p + 2000 \<and> snd p \<le> clock st \<and> clock st < fst p"
    and d1: "distinct (map ev_id (traffic st))" and d2: "distinct (map snd (timeouts st))"
    by (auto simp: sched_inv_iff)
  have new_id: "\<And>e. e \<in> set ?new \<Longrightarrow> ev_id e = ?c" by (rule created_id)
  have keep_ok: "ev_id e \<le> ?c \<and> ?c < ev_id e + 2000 \<and> (ev_id e + 2000, ev_id e) \<in> set ?pend"
    if "e \<in> set ?keep" for e
  proof -
    from that have e: "e \<in> set (traffic st)"
      and nf: "ev_id e \<notin> snd ` {p \<in> set (timeouts st). fst p \<le> ?c}" by auto
    from ev [OF e] have a: "ev_id e \<le> clock st" and b: "clock st < ev_id e + 2000"
      and c: "(ev_id e + 2000, ev_id e) \<in> set (timeouts st)" by auto
    from nf c have "\<not> ev_id e + 2000 \<le> ?c" by force
    with a c show ?thesis by auto
  qed
  have pend_ok: "fst p = snd p + 2000 \<and> snd p \<le> ?c \<and> ?c < fst p" if "p \<in> set ?pend" for p
    using that tm [of p] by auto
  have t1: "\<forall>e \<in> set (traffic (millisecond inp st)). ev_id e \<le> clock (millisecond inp st)
         \<and> clock (millisecond inp st) < ev_id e + 2000
         \<and> (ev_id e + 2000, ev_id e) \<in> set (timeouts (millisecond inp st))"
    unfolding traffic_millisecond timeouts_millisecond clock_millisecond
    using keep_ok new_id by auto
  have t2: "\<forall>p \<in> set (timeouts (millisecond inp st)).
      fst p = snd p + 2000 \<and> snd p \<le> clock (millisecond inp st) \<and> clock (millisecond inp st) < fst p"
    unfolding timeouts_millisecond clock_millisecond
    using pend_ok new_id by auto
  have dnew: "distinct (map ev_id ?new)"
    by (auto simp: created_def split: option.splits)
  have old_ne: "ev_id e \<noteq> ?c" if "e \<in> set (traffic st)" for e
    using ev [OF that] by simp
  have tm_ne: "snd p \<noteq> ?c" if "p \<in> set (timeouts st)" for p
    using tm [OF that] by simp
  have t3: "distinct (map ev_id (traffic (millisecond inp st)))"
    unfolding traffic_millisecond
    using d1 dnew new_id old_ne by (auto simp: distinct_map_filter)
  have t4: "distinct (map snd (timeouts (millisecond inp st)))"
    unfolding timeouts_millisecond
    using d2 dnew new_id tm_ne by (auto simp: distinct_map_filter comp_def)
  from t1 t2 t3 t4 show ?thesis unfolding sched_inv_iff by blast
qed

lemma run_snoc: "run (ins @ [inp]) st = millisecond inp (run ins st)"
  by (simp add: run_def)

lemma run_Nil: "run [] st = st"
  by (simp add: run_def)

lemma sched_inv_run: "sched_inv st \<Longrightarrow> sched_inv (run ins st)"
  by (induction ins rule: rev_induct) (simp_all add: run_Nil run_snoc sched_inv_millisecond)

lemma clock_run: "clock (run ins st) = clock st + int (length ins)"
  by (induction ins rule: rev_induct) (simp_all add: run_Nil run_snoc clock_millisecond)





lemma traffic_millisecond_inv:
  assumes inv: "sched_inv st"
  shows "traffic (millisecond inp st) =
           filter (\<lambda>t. clock st + 1 < ev_id t + 2000) (traffic st) @ created (fst inp) st"
proof -
  have "(ev_id t \<notin> snd ` {p \<in> set (timeouts st). fst p \<le> clock st + 1})
        = (clock st + 1 < ev_id t + 2000)" if t: "t \<in> set (traffic st)" for t
  proof
    assume nf: "ev_id t \<notin> snd ` {p \<in> set (timeouts st). fst p \<le> clock st + 1}"
    from inv t have "(ev_id t + 2000, ev_id t) \<in> set (timeouts st)" by (auto simp: sched_inv_iff)
    with nf have "\<not> ev_id t + 2000 \<le> clock st + 1" by force
    then show "clock st + 1 < ev_id t + 2000" by simp
  next
    assume young: "clock st + 1 < ev_id t + 2000"
    show "ev_id t \<notin> snd ` {p \<in> set (timeouts st). fst p \<le> clock st + 1}"
    proof
      assume "ev_id t \<in> snd ` {p \<in> set (timeouts st). fst p \<le> clock st + 1}"
      then obtain p where p: "p \<in> set (timeouts st)" "fst p \<le> clock st + 1" "snd p = ev_id t"
        by auto
      from inv p(1) have "fst p = snd p + 2000" by (auto simp: sched_inv_iff)
      with p young show False by simp
    qed
  qed
  then have "filter (\<lambda>t. ev_id t \<notin> snd ` {p \<in> set (timeouts st). fst p \<le> clock st + 1}) (traffic st)
             = filter (\<lambda>t. clock st + 1 < ev_id t + 2000) (traffic st)"
    by (rule filter_cong [OF refl])
  then show ?thesis by (simp add: traffic_millisecond)
qed






section \<open>Stopping the scheduler\<close>

lemma interval_millisecond_stopped:
  "interval st = None \<Longrightarrow> \<not> is_render (snd inp) \<Longrightarrow> interval (millisecond inp st) = None"
  by (cases "snd inp")
     (auto simp: millisecond_def fire_interval_def fire_timeouts_eq effect_cleanup_def)

lemma created_stopped: "interval st = None \<Longrightarrow> created r st = []"
  by (simp add: created_def)

lemma stopped_run:
  assumes inv: "sched_inv st" and stopped: "interval st = None"
  shows "list_all (\<lambda>inp. \<not> is_render (snd inp)) ins \<Longrightarrow>
     interval (run ins st) = None
     \<and> traffic (run ins st) = filter (\<lambda>t. clock st + int (length ins) < ev_id t + 2000) (traffic st)
     \<and> timeouts (run ins st) = filter (\<lambda>p. clock st + int (length ins) < fst p) (timeouts st)"
proof (induction ins rule: rev_induct)
  case Nil
  from inv have "\<forall>t \<in> set (traffic st). clock st < ev_id t + 2000"
    and "\<forall>p \<in> set (timeouts st). clock st < fst p"
    by (auto simp: sched_inv_iff)
  then have "filter (\<lambda>t. clock st < ev_id t + 2000) (traffic st) = traffic st"
    and "filter (\<lambda>p. clock st < fst p) (timeouts st) = timeouts st"
    by (simp_all add: filter_id_conv)
  with stopped show ?case by (simp add: run_Nil)
next
  case (snoc inp ins)
  let ?S = "run ins st"
  from snoc.prems have norender: "list_all (\<lambda>inp. \<not> is_render (snd inp)) ins"
    and last: "\<not> is_render (snd inp)" by simp_all
  from snoc.IH [OF norender] have i: "interval ?S = None"
    and t: "traffic ?S = filter (\<lambda>t. clock st + int (length ins) < ev_id t + 2000) (traffic st)"
    and p: "timeouts ?S = filter (\<lambda>p. clock st + int (length ins) < fst p) (timeouts st)"
    by simp_all
  have invS: "sched_inv ?S" using inv by (rule sched_inv_run)
  have c: "clock ?S = clock st + int (length ins)" by (rule clock_run)
  have a1: "interval (millisecond inp ?S) = None"
    using i last by (rule interval_millisecond_stopped)
  have "traffic (millisecond inp ?S) = filter (\<lambda>t. clock ?S + 1 < ev_id t + 2000) (traffic ?S)"
    using traffic_millisecond_inv [OF invS, of inp] created_stopped [OF i] by simp
  also have "\<dots> = filter (\<lambda>t. clock st + int (length (ins @ [inp])) < ev_id t + 2000) (traffic st)"
    unfolding t c by (auto intro: filter_cong)
  finally have a2: "traffic (millisecond inp ?S)
      = filter (\<lambda>t. clock st + int (length (ins @ [inp])) < ev_id t + 2000) (traffic st)" .
  have "timeouts (millisecond inp ?S) = filter (\<lambda>p. \<not> fst p \<le> clock ?S + 1) (timeouts ?S)"
    using timeouts_millisecond [of inp ?S] created_stopped [OF i] by simp
  also have "\<dots> = filter (\<lambda>p. clock st + int (length (ins @ [inp])) < fst p) (timeouts st)"
    unfolding p c by (auto intro: filter_cong)
  finally have a3: "timeouts (millisecond inp ?S)
      = filter (\<lambda>p. clock st + int (length (ins @ [inp])) < fst p) (timeouts st)" .
  from a1 a2 a3 show ?case unfolding run_snoc by blast
qed

lemma sched_inv_cleanup: "sched_inv st \<Longrightarrow> sched_inv (effect_cleanup st)"
  by (simp add: sched_inv_def effect_cleanup_def)

text \<open>
  The claim C8 as it is written fails: the cleanup clears the interval only. After one
  tick at time 500 and the cleanup, the removal timer of the event is still pending, due
  at 2500, and 2000 ms later it has fired and emptied \<open>traffic\<close>.
\<close>

theorem cleanup_leaves_timeouts_counterexample:
  "timeouts (effect_cleanup (run (replicate 500 (0, Idle)) (mount 0 [\<lparr>name = Some ''s1'',
       cpu_usage = Some 30, memory_usage = Some 10, connections = None, healthy = Some True\<rparr>])))
     = [(2500, 500)]
   \<and> traffic (effect_cleanup (run (replicate 500 (0, Idle)) (mount 0 [\<lparr>name = Some ''s1'',
       cpu_usage = Some 30, memory_usage = Some 10, connections = None, healthy = Some True\<rparr>])))
     = [\<lparr>ev_id = 500, ev_from = ''lb'', ev_to = Some ''s1''\<rparr>]
   \<and> traffic (run (replicate 2000 (0, Idle)) (effect_cleanup (run (replicate 500 (0, Idle))
       (mount 0 [\<lparr>name = Some ''s1'',
       cpu_usage = Some 30, memory_usage = Some 10, connections = None, healthy = Some True\<rparr>]))))
     = []"
  by code_simp

text \<open>
  C8, amended. Stopping the scheduler cancels the 500 ms tick only. The cleanup leaves
  the pending removal timers and the events in flight as they are. As long as the effect
  is not run again, no event is created any more, and each pending removal timer still
  fires when it is due: after \<open>n\<close> more milliseconds exactly the events younger than
  2000 ms and the timers not yet due are left.
\<close>

theorem cleanup_stops_ticks_only:
  assumes reach: "st = run before (mount t0 srvs0)"
    and norender: "list_all (\<lambda>inp. \<not> is_render (snd inp)) ins"
  shows "interval (effect_cleanup st) = None
     \<and> timeouts (effect_cleanup st) = timeouts st
     \<and> traffic (effect_cleanup st) = traffic st
     \<and> interval (run ins (effect_cleanup st)) = None
     \<and> traffic (run ins (effect_cleanup st))
         = filter (\<lambda>t. clock st + int (length ins) < ev_id t + 2000) (traffic st)
     \<and> timeouts (run ins (effect_cleanup st))
         = filter (\<lambda>p. clock st + int (length ins) < fst p) (timeouts st)"
proof -
  have inv: "sched_inv st" unfolding reach by (rule sched_inv_run) (rule sched_inv_mount)
  then have inv': "sched_inv (effect_cleanup st)" by (rule sched_inv_cleanup)
  have stopped: "interval (effect_cleanup st) = None" by (simp add: effect_cleanup_def)
  from stopped_run [OF inv' stopped norender] show ?thesis
    by (simp add: effect_cleanup_def)
qed

theorem cleanup_stops_ticks_only_witness:
  "list_all (\<lambda>inp. \<not> is_render (snd inp)) (replicate 2000 ((0::rat), Idle))
   \<and> timeouts (effect_cleanup (run (replicate 500 (0, Idle)) (mount 0 [\<lparr>name = Some ''s1'',
       cpu_usage = Some 30, memory_usage = Some 10, connections = None, healthy = Some True\<rparr>])))
     = timeouts (run (replicate 500 (0, Idle)) (mount 0 [\<lparr>name = Some ''s1'',
       cpu_usage = Some 30, memory_usage = Some 10, connections = None, healthy = Some True\<rparr>]))
   \<and> interval (run (replicate 2000 (0, Idle)) (effect_cleanup (run (replicate 500 (0, Idle))
       (mount 0 [\<lparr>name = Some ''s1'', cpu_usage = Some 30, memory_usage = Some 10,
          connections = None, healthy = Some True\<rparr>])))) = None"
proof -
  have norender: "list_all (\<lambda>inp. \<not> is_render (snd inp)) (replicate 2000 ((0::rat), Idle))"
    by (simp add: list_all_iff)
  from cleanup_stops_ticks_only [OF refl norender] norender show ?thesis by blast
qed

end
